theory Spec2Isabelle
  imports Main "HOL-Library.AList" "HOL-Library.Char_ord" "HOL-Library.List_Lexorder" "HOL-Library.Multiset"
begin

section \<open>Pygments option strings (helpers/pygments.go)\<close>

text \<open>
  Go strings are byte sequences: \<open>string\<close> (a \<open>char list\<close>). Go compares strings
  byte by byte, a proper prefix being smaller; that is the lexicographic order of
  \<open>HOL-Library.List_Lexorder\<close> over the byte order of \<open>HOL-Library.Char_ord\<close>.

  A Go \<open>map[string]string\<close> is an association list with distinct keys. The order of
  the list is not part of the map's value: Go leaves the order in which \<open>range\<close>
  visits a map unspecified, so every loop over a map takes the visiting order as a
  parameter \<open>iter\<close>, a function that rearranges the entries.
\<close>

type_synonym gomap = "(string \<times> string) list"

definition mapIndex :: "gomap \<Rightarrow> string \<Rightarrow> string" where
  \<comment> \<open>\<open>options[k]\<close>: the zero value \<open>""\<close> for a missing key\<close>
  "mapIndex options k = (case map_of options k of None \<Rightarrow> [] | Some v \<Rightarrow> v)"

definition mapAssign :: "gomap \<Rightarrow> string \<Rightarrow> string \<Rightarrow> gomap" where
  \<comment> \<open>\<open>options[k] = v\<close>\<close>
  "mapAssign options k v = AList.update k v options"

definition mapHas :: "gomap \<Rightarrow> string \<Rightarrow> bool" where
  \<comment> \<open>\<open>_, ok := options[k]\<close>\<close>
  "mapHas options k = (map_of options k \<noteq> None)"

subsection \<open>The string functions of Go's \<open>strings\<close> that the code calls\<close>

definition stringsTrimSpace :: "string \<Rightarrow> string" where
  \<comment> \<open>\<open>strings.Trim(s, " ")\<close>\<close>
  "stringsTrimSpace s =
     rev (dropWhile (\<lambda>c. c = CHR '' '') (rev (dropWhile (\<lambda>c. c = CHR '' '') s)))"

fun stringsSplit :: "char \<Rightarrow> string \<Rightarrow> string list" where
  \<comment> \<open>\<open>strings.Split(s, sep)\<close> for a separator of one byte; never empty\<close>
  "stringsSplit sep [] = [[]]"
| "stringsSplit sep (c # cs) =
     (if c = sep then [] # stringsSplit sep cs
      else (case stringsSplit sep cs of
              [] \<Rightarrow> [[c]]
            | w # ws \<Rightarrow> (c # w) # ws))"

fun stringsJoin :: "string \<Rightarrow> string list \<Rightarrow> string" where
  "stringsJoin sep [] = []"
| "stringsJoin sep [w] = w"
| "stringsJoin sep (w # v # ws) = w @ sep @ stringsJoin sep (v # ws)"

subsection \<open>\<open>pygmentsKeywords\<close>, \<open>parseOptions\<close>\<close>

definition pygmentsKeywords :: "string \<Rightarrow> bool" where
  "pygmentsKeywords key =
     (key \<in> set [''style'', ''encoding'', ''noclasses'', ''hl_lines'', ''linenos'',
                 ''classprefix'', ''startinline''])"

text \<open>
  \<open>parseOptions\<close> updates the map in place and returns an error; the model returns
  the error (\<open>Inl\<close>, the message) or the updated map. \<open>strings.ToLower\<close> follows
  Unicode's case tables and is a parameter \<open>toLower\<close>. \<open>keyVal[0]\<close> is in range,
  \<open>strings.Split\<close> returning at least one string.
\<close>

fun parseOptionsLoop :: "(string \<Rightarrow> string) \<Rightarrow> gomap \<Rightarrow> string list \<Rightarrow> string + gomap" where
  "parseOptionsLoop toLower options [] = Inr options"
| "parseOptionsLoop toLower options (v # vs) =
     (let keyVal = stringsSplit (CHR ''='') v;
          key = toLower (stringsTrimSpace (hd keyVal))
      in if length keyVal \<noteq> 2 \<or> \<not> pygmentsKeywords key
         then Inl (''invalid Pygments option: '' @ key)
         else parseOptionsLoop toLower (mapAssign options key (keyVal ! 1)) vs)"

definition parseOptions :: "(string \<Rightarrow> string) \<Rightarrow> gomap \<Rightarrow> string \<Rightarrow> string + gomap" where
  "parseOptions toLower options in0 =
     (let in1 = stringsTrimSpace in0
      in if in1 \<noteq> [] then parseOptionsLoop toLower options (stringsSplit (CHR '','') in1)
         else Inr options)"

subsection \<open>\<open>createOptionsString\<close>\<close>

text \<open>
  \<open>for k := range options\<close> collects the keys in the visiting order \<open>iter options\<close>;
  \<open>sort.Strings\<close> sorts them; the second loop writes \<open>k=v\<close> and a comma after every
  key but the one at index \<open>len(options)-1\<close> (a Go \<open>int\<close>, \<open>-1\<close> for the empty map).
\<close>

fun optionsStrLoop :: "gomap \<Rightarrow> nat \<Rightarrow> string list \<Rightarrow> string \<Rightarrow> string" where
  "optionsStrLoop options i [] optionsStr = optionsStr"
| "optionsStrLoop options i (k # keys) optionsStr =
     (let s = optionsStr @ k @ ''='' @ mapIndex options k
      in optionsStrLoop options (Suc i) keys
           (if int i < int (length options) - 1 then s @ '','' else s))"

definition createOptionsString :: "(gomap \<Rightarrow> gomap) \<Rightarrow> gomap \<Rightarrow> string" where
  "createOptionsString iter options =
     (let keys = sort (map fst (iter options))
      in optionsStrLoop options 0 keys [])"

subsection \<open>\<open>parseDefaultPygmentsOpts\<close>, \<open>parsePygmentsOpts\<close>, the cache key of \<open>Highlight\<close>\<close>

text \<open>
  The configuration \<open>viper\<close> holds: \<open>GetString\<close> of an unset key is \<open>""\<close>, \<open>IsSet\<close>
  is \<open>Some\<close>.
\<close>

record viperConfig =
  PygmentsOptions :: string
  PygmentsStyle :: "string option"
  PygmentsUseClasses :: "bool option"
  CacheDir :: string

definition parseDefaultPygmentsOpts :: "(string \<Rightarrow> string) \<Rightarrow> viperConfig \<Rightarrow> string + gomap" where
  "parseDefaultPygmentsOpts toLower cfg =
     (case parseOptions toLower [] (PygmentsOptions cfg) of
        Inl err \<Rightarrow> Inl err
      | Inr options \<Rightarrow>
          (let o1 = (case PygmentsStyle cfg of
                       Some style \<Rightarrow> mapAssign options ''style'' style
                     | None \<Rightarrow> options);
               o2 = (case PygmentsUseClasses cfg of
                       Some useClasses \<Rightarrow>
                         (if useClasses then mapAssign o1 ''noclasses'' ''false''
                          else mapAssign o1 ''noclasses'' ''true'')
                     | None \<Rightarrow> o1);
               o3 = (if \<not> mapHas o2 ''encoding'' then mapAssign o2 ''encoding'' ''utf8''
                     else o2)
           in Inr o3))"

definition parsePygmentsOpts ::
  "(string \<Rightarrow> string) \<Rightarrow> (gomap \<Rightarrow> gomap) \<Rightarrow> viperConfig \<Rightarrow> string \<Rightarrow> string + string" where
  "parsePygmentsOpts toLower iter cfg in0 =
     (case parseDefaultPygmentsOpts toLower cfg of
        Inl err \<Rightarrow> Inl err
      | Inr options \<Rightarrow>
          (case parseOptions toLower options in0 of
             Inl err \<Rightarrow> Inl err
           | Inr options' \<Rightarrow> Inr (createOptionsString iter options')))"

text \<open>
  \<open>Highlight\<close> up to the cache key: it returns early without Pygments or on an option
  error (\<open>None\<close>), and otherwise feeds \<open>code\<close>, \<open>lang\<close> and the option string to SHA-1.
  The hash function is a parameter \<open>sha1\<close>.
\<close>

definition HighlightCacheKey ::
  "(string \<Rightarrow> 'h) \<Rightarrow> bool \<Rightarrow> (string \<Rightarrow> string) \<Rightarrow> (gomap \<Rightarrow> gomap) \<Rightarrow> viperConfig \<Rightarrow>
   string \<Rightarrow> string \<Rightarrow> string \<Rightarrow> 'h option" where
  "HighlightCacheKey sha1 hasPygments toLower iter cfg code lang optsStr =
     (if \<not> hasPygments then None
      else (case parsePygmentsOpts toLower iter cfg optsStr of
              Inl err \<Rightarrow> None
            | Inr options \<Rightarrow> Some (sha1 (code @ lang @ options))))"

text \<open>What the claim says the string is: the pairs in ascending key order, joined by commas.\<close>

definition sortedOptionsString :: "(string \<rightharpoonup> string) \<Rightarrow> string" where
  "sortedOptionsString m =
     stringsJoin '','' (map (\<lambda>k. k @ ''='' @ the (m k)) (sorted_list_of_set (dom m)))"

section \<open>Output paths (package target)\<close>

text \<open>
  \<open>path.Split\<close> cuts after the last slash; \<open>path.Ext\<close> walks back from the end to
  the first dot, stopping at a slash. Both are Go's own, written out because
  \<open>filename\<close> slices with their result. \<open>path.Join\<close>, \<open>filepath.Split\<close>,
  \<open>filepath.Join\<close> and \<open>filepath.FromSlash\<close> are parameters: total string functions
  of Go's library whose result is only passed on.
\<close>

definition pathSplit :: "string \<Rightarrow> string \<times> string" where
  "pathSplit p =
     (let file = rev (takeWhile (\<lambda>c. c \<noteq> CHR ''/'') (rev p))
      in (take (length p - length file) p, file))"

definition pathExt :: "string \<Rightarrow> string" where
  "pathExt p =
     (let tail = takeWhile (\<lambda>c. c \<noteq> CHR ''/'') (rev p)
      in if CHR ''.'' \<in> set tail
         then CHR ''.'' # rev (takeWhile (\<lambda>c. c \<noteq> CHR ''.'') tail)
         else [])"

datatype panic = SliceBoundsOutOfRange

record Filesystem =
  UglyUrls :: bool
  DefaultExtension :: string
  PublishDir :: string

definition extension :: "Filesystem \<Rightarrow> string \<Rightarrow> string" where
  "extension fs ext =
     (if ext = ''.md'' \<or> ext = ''.rst'' then ''.html''
      else if ext \<noteq> [] then ext
      else if DefaultExtension fs \<noteq> [] then DefaultExtension fs
      else ''.html'')"

text \<open>\<open>f[:len(f)-len(ext)]\<close> panics when the bound is negative.\<close>

definition filename :: "string \<Rightarrow> panic + string" where
  "filename f =
     (let ext = pathExt f
      in if ext = [] then Inr f
         else if length ext \<le> length f then Inr (take (length f - length ext) f)
         else Inl SliceBoundsOutOfRange)"

text \<open>
  \<open>Translate\<close> returns \<open>(dest, err)\<close>; \<open>err\<close> is \<open>None\<close> for Go's \<open>nil\<close>.
\<close>

definition Translate ::
  "(string list \<Rightarrow> string) \<Rightarrow> Filesystem \<Rightarrow> string \<Rightarrow> panic + (string \<times> string option)" where
  "Translate pathJoin fs src =
     (if src = ''/'' then Inr (''index.html'', None)
      else
        (let (dir, file) = pathSplit src;
             ext = extension fs (pathExt file)
         in case filename file of
              Inl p \<Rightarrow> Inl p
            | Inr name \<Rightarrow>
                if UglyUrls fs then Inr (pathJoin [dir, name @ ext], None)
                else Inr (pathJoin [dir, name, ''index'' @ ext], None)))"

text \<open>
  \<open>Publish\<close>, with the file system behind three parameters (\<open>os.MkdirAll\<close>,
  \<open>os.Create\<close>, \<open>io.Copy\<close> into the created file, each giving its error). The result
  says which \<open>return\<close> was taken and with which error.
\<close>

datatype publishReturn =
    ReturnTranslateErr string
  | ReturnMkdirAllErr string
  | ReturnCreateErr string
  | ReturnCopy "string option"

record osFuncs =
  filepathSplit :: "string \<Rightarrow> string \<times> string"
  filepathJoin :: "string list \<Rightarrow> string"
  filepathFromSlash :: "string \<Rightarrow> string"
  osMkdirAll :: "string \<Rightarrow> string option"
  osCreate :: "string \<Rightarrow> string option"
  ioCopy :: "string \<Rightarrow> string \<Rightarrow> string option"

definition Publish ::
  "(string list \<Rightarrow> string) \<Rightarrow> osFuncs \<Rightarrow> Filesystem \<Rightarrow> string \<Rightarrow> string \<Rightarrow> panic + publishReturn" where
  "Publish pathJoin os fs path r =
     (case Translate pathJoin fs path of
        Inl p \<Rightarrow> Inl p
      | Inr (translated, Some err) \<Rightarrow> Inr (ReturnTranslateErr err)
      | Inr (translated, None) \<Rightarrow>
          (let path' = fst (filepathSplit os translated);
               dest = filepathJoin os [PublishDir fs, path'];
               ospath = filepathFromSlash os dest
           in case osMkdirAll os ospath of
                Some err \<Rightarrow> Inr (ReturnMkdirAllErr err)
              | None \<Rightarrow>
                  (case osCreate os (filepathJoin os [PublishDir fs, translated]) of
                     Some err \<Rightarrow> Inr (ReturnCreateErr err)
                   | None \<Rightarrow>
                       Inr (ReturnCopy
                              (ioCopy os (filepathJoin os [PublishDir fs, translated]) r)))))"

section \<open>The page lexer (parser/pageparser)\<close>

text \<open>
  Of package \<open>pageparser\<close> the sources hold the test file
  \<open>pageparser_intro_test.go\<close>: the \<open>Item\<close> literals of \<open>nti\<close>, the table
  \<open>frontMatterTests\<close>, \<open>collect\<close> and \<open>equal\<close>. These are translated from the code.
  The lexer the test drives (\<open>itemType\<close>, \<open>newPageLexer\<close>, \<open>run\<close>, \<open>nextItem\<close>,
  \<open>lexIntroSection\<close>) is not among the sources; it is modelled from the
  specification, and each such definition says so.
\<close>

subsection \<open>Items\<close>

text \<open>
  Modelled from the spec: the enumeration \<open>itemType\<close> is missing; the spec's TokenKind
  lists its ten members, named here as the test file names them.
\<close>

datatype itemType =
    tError | tEOF | tHTMLLead
  | tFrontMatterYAML | tFrontMatterTOML | tFrontMatterJSON | tFrontMatterORG
  | tText | tSummaryDivider | tSummaryDividerOrg

text \<open>\<open>Item{tp, 0, []byte(val)}\<close>: a type tag, a byte offset, a byte span.\<close>

record Item =
  typ' :: itemType
  pos :: nat
  Val :: string

definition nti :: "itemType \<Rightarrow> string \<Rightarrow> Item" where
  "nti tp val = \<lparr>typ' = tp, pos = 0, Val = val\<rparr>"

definition isFrontMatter :: "itemType \<Rightarrow> bool" where
  "isFrontMatter t =
     (t = tFrontMatterYAML \<or> t = tFrontMatterTOML \<or> t = tFrontMatterJSON \<or> t = tFrontMatterORG)"

definition isTerminal :: "itemType \<Rightarrow> bool" where
  \<comment> \<open>the test of \<open>collect\<close>: \<open>item.typ == tEOF || item.typ == tError\<close>\<close>
  "isTerminal t = (t = tEOF \<or> t = tError)"

subsection \<open>Bytes\<close>

abbreviation LF :: char where "LF \<equiv> CHR 0x0A"
abbreviation CR :: char where "CR \<equiv> CHR 0x0D"
abbreviation TAB :: char where "TAB \<equiv> CHR 0x09"
abbreviation DQUOTE :: char where "DQUOTE \<equiv> CHR 0x22"
abbreviation BACKSLASH :: char where "BACKSLASH \<equiv> CHR 0x5C"

definition isSpace :: "char \<Rightarrow> bool" where
  "isSpace c = (c = CHR '' '' \<or> c = TAB)"

definition isEndOfLine :: "char \<Rightarrow> bool" where
  "isEndOfLine c = (c = CR \<or> c = LF)"

definition hasPrefix :: "string \<Rightarrow> string \<Rightarrow> bool" where
  "hasPrefix p d = (take (length d) p = d)"

text \<open>
  Modelled from the spec: a line terminator is CR, LF or CRLF (section 4.2). The length
  of the line terminator that \<open>p\<close> begins with, 0 when it begins with none.
\<close>

fun lineTerminator :: "string \<Rightarrow> nat" where
  "lineTerminator (c # d # p) =
     (if c = CR \<and> d = LF then 2 else if c = CR \<or> c = LF then 1 else 0)"
| "lineTerminator [c] = (if c = CR \<or> c = LF then 1 else 0)"
| "lineTerminator [] = 0"

text \<open>Whether the byte \<open>c\<close>, followed by \<open>p\<close>, is the last byte of a line terminator.\<close>

definition endsLine :: "char \<Rightarrow> string \<Rightarrow> bool" where
  "endsLine c p = (c = LF \<or> (c = CR \<and> \<not> hasPrefix p [LF]))"

subsection \<open>The lexer state and the emission discipline\<close>

text \<open>
  Modelled from the spec: the lexer state (section 3, LexerState) is missing: the input
  buffer, the cursor, the start of the current token, the active state function
  (\<open>None\<close> once a state returned the terminal signal), and the queue of emitted
  items; and the divider spelling the body state looks for (section 4.3). State
  functions are a tagged enumeration (section 9); the two a run can start in
  (section 6) are its members.
\<close>

datatype stateFunc = lexIntroSection | lexMainSection

datatype dividerKind = DividerGeneric | DividerOrg

record pageLexer =
  input :: string
  cursor :: nat
  tokenStart :: nat
  state :: "stateFunc option"
  summaryDivider :: dividerKind
  items :: "Item list"

text \<open>
  Modelled from the spec: section 4.1, the emission discipline. Emit appends an item
  spanning \<open>[tokenStart, cursor)\<close> and moves \<open>tokenStart\<close> to the cursor; bytes a state
  has examined and does not want in any item are dropped by moving \<open>tokenStart\<close>
  alone. An Error item is synthetic, with an empty span (section 3), and ends the run.
\<close>

definition slice :: "string \<Rightarrow> nat \<Rightarrow> nat \<Rightarrow> string" where
  \<comment> \<open>\<open>input[lo:hi]\<close>\<close>
  "slice inp lo hi = take (hi - lo) (drop lo inp)"

definition emit :: "itemType \<Rightarrow> pageLexer \<Rightarrow> pageLexer" where
  "emit t l =
     l\<lparr>items := items l @ [\<lparr>typ' = t, pos = tokenStart l,
                               Val = slice (input l) (tokenStart l) (cursor l)\<rparr>],
       tokenStart := cursor l\<rparr>"

definition ignore :: "pageLexer \<Rightarrow> pageLexer" where
  "ignore l = l\<lparr>tokenStart := cursor l\<rparr>"

definition advance :: "nat \<Rightarrow> pageLexer \<Rightarrow> pageLexer" where
  "advance n l = l\<lparr>cursor := cursor l + n\<rparr>"

definition errorf :: "pageLexer \<Rightarrow> pageLexer" where
  "errorf l =
     l\<lparr>items := items l @ [\<lparr>typ' = tError, pos = tokenStart l, Val = []\<rparr>],
       state := None\<rparr>"

definition rest :: "pageLexer \<Rightarrow> string" where
  \<comment> \<open>the bytes from the cursor on\<close>
  "rest l = drop (cursor l) (input l)"

subsection \<open>The dialect detectors\<close>

text \<open>
  Each detector answers \<open>None\<close> when the bytes at the cursor do not begin with its
  opening signature, and otherwise the lexer state after it has done its work.

  Modelled from the spec: section 4.2, rule 1 (HTML lead). White space (blanks and
  tabs, no line terminator) and then \<open><\<close>: the HTMLLead item spans both, and the body
  state follows.
\<close>

definition lexHTMLLead :: "pageLexer \<Rightarrow> pageLexer option" where
  "lexHTMLLead l =
     (let ws = takeWhile isSpace (rest l)
      in if hasPrefix (drop (length ws) (rest l)) ''<''
         then Some ((emit tHTMLLead (advance (length ws + 1) l))\<lparr>state := Some lexMainSection\<rparr>)
         else None)"

text \<open>
  Modelled from the spec: section 4.2, rules 2 and 3 (YAML, TOML). The offset of the
  first line that consists of exactly one of the closing delimiters and ends with a
  line terminator; \<open>atStart\<close> says whether the first byte starts a line.
\<close>

definition isCloserLine :: "string list \<Rightarrow> string \<Rightarrow> bool" where
  "isCloserLine closers p =
     (\<exists>d \<in> set closers. hasPrefix p d \<and> 0 < lineTerminator (drop (length d) p))"

fun findCloser :: "string list \<Rightarrow> bool \<Rightarrow> string \<Rightarrow> nat option" where
  "findCloser closers atStart [] = None"
| "findCloser closers atStart (c # p) =
     (if atStart \<and> isCloserLine closers (c # p) then Some 0
      else map_option Suc (findCloser closers (endsLine c p) p))"

text \<open>
  The opening line (delimiter and line terminator) is dropped; the item spans the
  bytes up to the closing line; the closing line is dropped too. No closing line
  before the end of the input is an Error, and no front-matter item is emitted.
\<close>

definition lexFrontMatterSection ::
  "itemType \<Rightarrow> string \<Rightarrow> string list \<Rightarrow> pageLexer \<Rightarrow> pageLexer option" where
  "lexFrontMatterSection tp delim closers l =
     (if hasPrefix (rest l) delim \<and> 0 < lineTerminator (drop (length delim) (rest l))
      then
        (let l1 = ignore (advance (length delim + lineTerminator (drop (length delim) (rest l))) l)
         in case findCloser closers True (rest l1) of
              None \<Rightarrow> Some (errorf l1)
            | Some n \<Rightarrow>
                (let l2 = emit tp (advance n l1);
                     l3 = ignore (advance (length delim + lineTerminator (drop (length delim) (rest l2))) l2)
                 in Some (l3\<lparr>state := Some lexMainSection\<rparr>)))
      else None)"

text \<open>
  Modelled from the spec: section 4.2, rule 4 (JSON). The number of bytes up to and
  including the brace that brings the depth back to zero, \<open>None\<close> when the input ends
  first. A backslash takes the byte after it out of the scan (an escaped quote does
  not end a string, an escaped brace is not counted); an unescaped quote opens or
  closes a string; unescaped braces outside strings are counted.
\<close>

fun jsonEnd :: "nat \<Rightarrow> bool \<Rightarrow> string \<Rightarrow> nat option" where
  "jsonEnd level inQuote [] = None"
| "jsonEnd level inQuote (c # p) =
     (if c = BACKSLASH then
        (case p of
           [] \<Rightarrow> None
         | e # p' \<Rightarrow> map_option (\<lambda>n. n + 2) (jsonEnd level inQuote p'))
      else if c = DQUOTE then map_option Suc (jsonEnd level (\<not> inQuote) p)
      else if c = CHR ''{'' \<and> \<not> inQuote then map_option Suc (jsonEnd (level + 1) inQuote p)
      else if c = CHR ''}'' \<and> \<not> inQuote then
        (if level \<le> 1 then Some 1 else map_option Suc (jsonEnd (level - 1) inQuote p))
      else map_option Suc (jsonEnd level inQuote p))"

definition lexFrontMatterJSON :: "pageLexer \<Rightarrow> pageLexer option" where
  "lexFrontMatterJSON l =
     (if hasPrefix (rest l) ''{''
      then
        (case jsonEnd 0 False (rest l) of
           None \<Rightarrow> Some (errorf l)
         | Some n \<Rightarrow>
             Some ((emit tFrontMatterJSON (advance (n + lineTerminator (drop n (rest l))) l))
                     \<lparr>state := Some lexMainSection\<rparr>))
      else None)"

text \<open>
  Modelled from the spec: section 4.2, rule 5 (ORG). The length of the longest run of
  lines that each begin with \<open>#+\<close>. In the test table's ORG document a blank line
  comes before the first \<open>#+\<close> line and belongs to the item, so blank bytes before
  the first \<open>#+\<close> line are part of the signature and of the span. ORG front matter
  selects the ORG spelling of the summary divider (section 4.3).
\<close>

fun orgLines :: "bool \<Rightarrow> string \<Rightarrow> nat" where
  "orgLines atStart [] = 0"
| "orgLines atStart (c # p) =
     (if atStart \<and> \<not> hasPrefix (c # p) ''#+'' then 0
      else Suc (orgLines (endsLine c p) p))"

definition lexFrontMatterOrgMode :: "pageLexer \<Rightarrow> pageLexer option" where
  "lexFrontMatterOrgMode l =
     (let blank = takeWhile (\<lambda>c. isSpace c \<or> isEndOfLine c) (rest l);
          p = drop (length blank) (rest l)
      in if hasPrefix p ''#+''
         then Some ((emit tFrontMatterORG (advance (length blank + orgLines True p) l))
                      \<lparr>summaryDivider := DividerOrg, state := Some lexMainSection\<rparr>)
         else None)"

subsection \<open>The state functions\<close>

text \<open>
  Modelled from the spec: section 4.2. The intro state tries the detectors in the
  order of the rules; with none of them (rule 6) the body state follows with the
  cursor unmoved. The spec lets a document without front matter be "ORG-style" and
  does not say which documents are: that is the parameter \<open>orgStyle\<close>, asked about
  the bytes at the cursor.
\<close>

definition lexIntro :: "(string \<Rightarrow> bool) \<Rightarrow> pageLexer \<Rightarrow> pageLexer" where
  "lexIntro orgStyle l =
     (case lexHTMLLead l of Some l' \<Rightarrow> l' | None \<Rightarrow>
     (case lexFrontMatterSection tFrontMatterYAML ''---'' [''---'', ''...''] l of Some l' \<Rightarrow> l' | None \<Rightarrow>
     (case lexFrontMatterSection tFrontMatterTOML ''+++'' [''+++''] l of Some l' \<Rightarrow> l' | None \<Rightarrow>
     (case lexFrontMatterJSON l of Some l' \<Rightarrow> l' | None \<Rightarrow>
     (case lexFrontMatterOrgMode l of Some l' \<Rightarrow> l' | None \<Rightarrow>
        l\<lparr>summaryDivider := (if orgStyle (rest l) then DividerOrg else DividerGeneric),
          state := Some lexMainSection\<rparr>)))))"

text \<open>
  Modelled from the spec: section 4.3, the divider spellings. The generic marker is
  found anywhere; the ORG marker is a line consisting of \<open># more\<close>: it starts a line
  and a line terminator or the end of the input follows it.
\<close>

fun indexBytes :: "string \<Rightarrow> string \<Rightarrow> nat option" where
  "indexBytes sep [] = (if sep = [] then Some 0 else None)"
| "indexBytes sep (c # p) =
     (if hasPrefix (c # p) sep then Some 0 else map_option Suc (indexBytes sep p))"

definition isDividerOrgLine :: "string \<Rightarrow> bool" where
  "isDividerOrgLine p =
     (hasPrefix p ''# more'' \<and> (drop 6 p = [] \<or> 0 < lineTerminator (drop 6 p)))"

fun indexDividerOrg :: "bool \<Rightarrow> string \<Rightarrow> nat option" where
  "indexDividerOrg atStart [] = None"
| "indexDividerOrg atStart (c # p) =
     (if atStart \<and> isDividerOrgLine (c # p) then Some 0
      else map_option Suc (indexDividerOrg (endsLine c p) p))"

definition lineStartAt :: "string \<Rightarrow> nat \<Rightarrow> bool" where
  "lineStartAt inp k = (k = 0 \<or> (k \<le> length inp \<and> endsLine (inp ! (k - 1)) (drop k inp)))"

definition dividerOf :: "dividerKind \<Rightarrow> string" where
  "dividerOf k = (case k of DividerGeneric \<Rightarrow> ''<!--more-->'' | DividerOrg \<Rightarrow> ''# more'')"

definition dividerType :: "dividerKind \<Rightarrow> itemType" where
  "dividerType k = (case k of DividerGeneric \<Rightarrow> tSummaryDivider | DividerOrg \<Rightarrow> tSummaryDividerOrg)"

definition indexDivider :: "pageLexer \<Rightarrow> nat option" where
  "indexDivider l =
     (case summaryDivider l of
        DividerGeneric \<Rightarrow> indexBytes (dividerOf DividerGeneric) (rest l)
      | DividerOrg \<Rightarrow> indexDividerOrg (lineStartAt (input l) (cursor l)) (rest l))"

text \<open>
  Modelled from the spec: section 4.3, the body state. One invocation emits one item:
  the divider at the cursor, or the text up to the next divider or to the end of the
  input, or, with the input exhausted, EndOfInput (and the terminal signal). A Text
  item is never empty.
\<close>

definition lexMain :: "pageLexer \<Rightarrow> pageLexer" where
  "lexMain l =
     (if rest l = [] then (emit tEOF l)\<lparr>state := None\<rparr>
      else
        (case indexDivider l of
           Some 0 \<Rightarrow> emit (dividerType (summaryDivider l))
                       (advance (length (dividerOf (summaryDivider l))) l)
         | Some (Suc n) \<Rightarrow> emit tText (advance (Suc n) l)
         | None \<Rightarrow> emit tText (advance (length (rest l)) l)))"

subsection \<open>The engine\<close>

text \<open>
  Modelled from the spec: section 4.1. The engine invokes the current state function
  until one returns the terminal signal.
\<close>

fun step :: "(string \<Rightarrow> bool) \<Rightarrow> stateFunc \<Rightarrow> pageLexer \<Rightarrow> pageLexer" where
  "step orgStyle lexIntroSection l = lexIntro orgStyle l"
| "step orgStyle lexMainSection l = lexMain l"

definition runMeasure :: "pageLexer \<Rightarrow> nat" where
  "runMeasure l =
     (case state l of
        None \<Rightarrow> 0
      | Some lexMainSection \<Rightarrow> 1 + (length (input l) - cursor l)
      | Some lexIntroSection \<Rightarrow> 2 + length (input l))"

lemma input_lexIntro: "input (lexIntro orgStyle l) = input l"
  by (simp add: lexIntro_def lexHTMLLead_def lexFrontMatterSection_def lexFrontMatterJSON_def
      lexFrontMatterOrgMode_def emit_def ignore_def advance_def errorf_def Let_def
      split: option.splits)

lemma state_lexIntro: "state (lexIntro orgStyle l) \<noteq> Some lexIntroSection"
  by (simp add: lexIntro_def lexHTMLLead_def lexFrontMatterSection_def lexFrontMatterJSON_def
      lexFrontMatterOrgMode_def emit_def ignore_def advance_def errorf_def Let_def
      split: option.splits)

lemma runMeasure_lexIntro:
  assumes "state l = Some lexIntroSection"
  shows "runMeasure (lexIntro orgStyle l) < runMeasure l"
proof (cases "state (lexIntro orgStyle l)")
  case None
  with assms show ?thesis by (simp add: runMeasure_def)
next
  case (Some st)
  with state_lexIntro [of orgStyle l] have "st = lexMainSection" by (cases st) auto
  with Some assms show ?thesis by (simp add: runMeasure_def input_lexIntro)
qed

lemma runMeasure_lexMain:
  assumes "state l = Some lexMainSection"
  shows "runMeasure (lexMain l) < runMeasure l"
proof (cases "rest l = []")
  case True
  with assms show ?thesis by (simp add: lexMain_def runMeasure_def emit_def)
next
  case False
  then have lt: "cursor l < length (input l)" by (simp add: rest_def)
  have less: "length (input l) - (cursor l + k) < length (input l) - cursor l" if "0 < k" for k
    using lt that by arith
  have "0 < length (dividerOf (summaryDivider l))"
    by (simp add: dividerOf_def split: dividerKind.split)
  note d = less [OF this]
  have "0 < length (rest l)" using False by simp
  note r = less [OF this]
  have s: "length (input l) - Suc (cursor l + n) < length (input l) - cursor l" for n
    using less [of "Suc n"] by simp
  show ?thesis using False assms d r s
    by (simp add: lexMain_def runMeasure_def emit_def advance_def
        split: option.split nat.split)
qed

text \<open>
  \<open>run\<close> is total: every invocation of a state function brings the run nearer its
  end, as \<open>runMeasure\<close> counts.
\<close>

function run :: "(string \<Rightarrow> bool) \<Rightarrow> pageLexer \<Rightarrow> pageLexer" where
  "run orgStyle l =
     (case state l of
        None \<Rightarrow> l
      | Some st \<Rightarrow> run orgStyle (step orgStyle st l))"
  by pat_completeness auto
termination
proof (relation "measure (\<lambda>(orgStyle, l). runMeasure l)")
  show "wf (measure (\<lambda>(orgStyle, l). runMeasure l))" by simp
next
  fix orgStyle :: "string \<Rightarrow> bool" and l :: pageLexer and st
  assume "state l = Some st"
  then have "runMeasure (step orgStyle st l) < runMeasure l"
    by (cases st) (simp_all add: runMeasure_lexIntro runMeasure_lexMain)
  then show "((orgStyle, step orgStyle st l), (orgStyle, l)) \<in> measure (\<lambda>(orgStyle, l). runMeasure l)"
    by simp
qed

text \<open>
  Modelled from the spec: \<open>newPageLexer\<close> and \<open>nextItem\<close> are missing. A run starts at
  a byte offset in a start state (section 6), with the generic divider; the stream
  hands out the items one per call, in order (section 4.4). A call on an empty queue
  has no item to give (\<open>None\<close>).
\<close>

definition newPageLexer :: "string \<Rightarrow> nat \<Rightarrow> stateFunc \<Rightarrow> pageLexer" where
  "newPageLexer inp inputOffset stateStart =
     \<lparr>input = inp, cursor = inputOffset, tokenStart = inputOffset,
      state = Some stateStart, summaryDivider = DividerGeneric, items = []\<rparr>"

definition nextItem :: "pageLexer \<Rightarrow> (Item \<times> pageLexer) option" where
  "nextItem l = (case items l of [] \<Rightarrow> None | item # q \<Rightarrow> Some (item, l\<lparr>items := q\<rparr>))"

subsection \<open>The test file: \<open>collect\<close>, \<open>equal\<close> and the test table\<close>

text \<open>
  \<open>collect\<close> runs the lexer and pulls items until it has pulled an EndOfInput or an
  Error. The loop is a recursion on the queue; it has no result (\<open>None\<close>) when the
  queue gives out before a terminal item. \<open>skipFrontMatter\<close> is not used by the
  code. \<open>orgStyle\<close> is the parameter of the intro state.
\<close>

function collectLoop :: "pageLexer \<Rightarrow> Item list \<Rightarrow> Item list option" where
  "collectLoop l acc =
     (case nextItem l of
        None \<Rightarrow> None
      | Some (item, l') \<Rightarrow>
          (if typ' item = tEOF \<or> typ' item = tError then Some (acc @ [item])
           else collectLoop l' (acc @ [item])))"
  by pat_completeness auto
termination
  by (relation "measure (\<lambda>(l, acc). length (items l))")
     (auto simp: nextItem_def split: list.splits)

definition collect :: "(string \<Rightarrow> bool) \<Rightarrow> string \<Rightarrow> bool \<Rightarrow> stateFunc \<Rightarrow> Item list option" where
  "collect orgStyle inp skipFrontMatter stateStart =
     collectLoop (run orgStyle (newPageLexer inp 0 stateStart)) []"

fun equal :: "Item list \<Rightarrow> Item list \<Rightarrow> bool" where
  \<comment> \<open>types and values, "no positional checking, for now"\<close>
  "equal [] [] = True"
| "equal (a # i1) (b # i2) = (typ' a = typ' b \<and> Val a = Val b \<and> equal i1 i2)"
| "equal i1 i2 = False"

definition tstJSON :: string where
  "tstJSON = ''{ '' @ [DQUOTE] @ ''a'' @ [DQUOTE] @ '': { '' @ [DQUOTE] @ ''b'' @ [DQUOTE]
     @ '': '' @ [DQUOTE, BACKSLASH, DQUOTE] @ ''Hugo'' @ [BACKSLASH, DQUOTE] @ ''}''
     @ [DQUOTE] @ '' } }''"

definition tstHTMLLead :: Item where
  "tstHTMLLead = nti tHTMLLead ''  <''"

definition tstFrontMatterTOML :: Item where
  "tstFrontMatterTOML = nti tFrontMatterTOML (''foo = '' @ [DQUOTE] @ ''bar'' @ [DQUOTE, LF])"

definition tstFrontMatterYAML :: Item where
  "tstFrontMatterYAML = nti tFrontMatterYAML (''foo: '' @ [DQUOTE] @ ''bar'' @ [DQUOTE, LF])"

definition tstFrontMatterYAMLCRLF :: Item where
  "tstFrontMatterYAMLCRLF =
     nti tFrontMatterYAML (''foo: '' @ [DQUOTE] @ ''bar'' @ [DQUOTE, CR, LF])"

definition tstFrontMatterJSON :: Item where
  "tstFrontMatterJSON = nti tFrontMatterJSON (tstJSON @ [CR, LF])"

definition tstSomeText :: Item where
  "tstSomeText = nti tText ([LF] @ ''Some text.'' @ [LF])"

definition tstSummaryDivider :: Item where
  "tstSummaryDivider = nti tSummaryDivider ''<!--more-->''"

definition tstSummaryDividerOrg :: Item where
  "tstSummaryDividerOrg = nti tSummaryDividerOrg ''# more''"

definition tstORG :: string where
  "tstORG = [LF] @ ''#+TITLE: T1'' @ [LF] @ ''#+AUTHOR: A1'' @ [LF]
     @ ''#+DESCRIPTION: D1'' @ [LF]"

definition tstFrontMatterORG :: Item where
  "tstFrontMatterORG = nti tFrontMatterORG tstORG"

text \<open>
  Modelled from the spec: \<open>tstEOF\<close> is declared in a test file that is missing; an
  EndOfInput item carries an empty span (section 3).
\<close>

definition tstEOF :: Item where
  "tstEOF = nti tEOF []"

text \<open>The rows of \<open>frontMatterTests\<close>: the input and the items expected.\<close>

definition frontMatterTests :: "(string \<times> Item list) list" where
  "frontMatterTests =
     [([], [tstEOF]),
      (''  <html>  '', [tstHTMLLead, nti tText ''html>  '', tstEOF]),
      (''---'' @ [LF] @ ''foo: '' @ [DQUOTE] @ ''bar'' @ [DQUOTE, LF] @ ''---'' @ [LF, LF]
         @ ''Some text.'' @ [LF],
       [tstFrontMatterYAML, tstSomeText, tstEOF]),
      (''---'' @ [CR, LF] @ ''foo: '' @ [DQUOTE] @ ''bar'' @ [DQUOTE, CR, LF] @ ''---''
         @ [LF, LF] @ ''Some text.'' @ [LF],
       [tstFrontMatterYAMLCRLF, tstSomeText, tstEOF]),
      (''+++'' @ [LF] @ ''foo = '' @ [DQUOTE] @ ''bar'' @ [DQUOTE, LF] @ ''+++'' @ [LF, LF]
         @ ''Some text.'' @ [LF],
       [tstFrontMatterTOML, tstSomeText, tstEOF]),
      (tstJSON @ [CR, LF, LF] @ ''Some text.'' @ [LF],
       [tstFrontMatterJSON, tstSomeText, tstEOF]),
      (tstORG @ [LF] @ ''Some text.'' @ [LF],
       [tstFrontMatterORG, tstSomeText, tstEOF]),
      (tstORG @ [LF] @ ''Some text.'' @ [LF] @ ''# more'' @ [LF] @ ''Some text.'' @ [LF],
       [tstFrontMatterORG, tstSomeText, tstSummaryDividerOrg, tstSomeText, tstEOF]),
      (''+++'' @ [LF] @ ''foo = '' @ [DQUOTE] @ ''bar'' @ [DQUOTE, LF] @ ''+++'' @ [LF, LF]
         @ ''Some text.'' @ [LF] @ ''<!--more-->'' @ [LF] @ ''Some text.'' @ [LF],
       [tstFrontMatterTOML, tstSomeText, tstSummaryDivider, tstSomeText, tstEOF])]"

text \<open>\<open>TestFrontMatter\<close>: every row's items are the expected ones.\<close>

definition TestFrontMatter :: "(string \<Rightarrow> bool) \<Rightarrow> bool" where
  "TestFrontMatter orgStyle =
     list_all (\<lambda>(inp, expected).
        (case collect orgStyle inp False lexIntroSection of
           None \<Rightarrow> False
         | Some its \<Rightarrow> equal its expected)) frontMatterTests"

subsection \<open>Predicates on item sequences\<close>

text \<open>
  The items' spans lie in the input in order and without overlap, from offset \<open>lo\<close>
  on: \<open>Val\<close> of an item that is not synthetic is the input's bytes
  \<open>[pos, pos + len(Val))\<close>, and the next span starts at or after that range's end.
  Synthetic items (EndOfInput, Error) carry no bytes.
\<close>

fun spansFrom :: "string \<Rightarrow> nat \<Rightarrow> Item list \<Rightarrow> bool" where
  "spansFrom inp lo [] = True"
| "spansFrom inp lo (item # q) =
     (if isTerminal (typ' item) then Val item = [] \<and> spansFrom inp lo q
      else lo \<le> pos item \<and> pos item + length (Val item) \<le> length inp
         \<and> Val item = slice inp (pos item) (pos item + length (Val item))
         \<and> spansFrom inp (pos item + length (Val item)) q)"

definition nonSynthetic :: "Item list \<Rightarrow> Item list" where
  "nonSynthetic q = filter (\<lambda>item. \<not> isTerminal (typ' item)) q"

definition spanBytes :: "Item list \<Rightarrow> string" where
  \<comment> \<open>the spans of the items that are not synthetic, concatenated in order\<close>
  "spanBytes q = concat (map Val (nonSynthetic q))"

definition itemTypes :: "Item list \<Rightarrow> itemType list" where
  "itemTypes q = map typ' q"

text \<open>
  Where a divider stands in the input: the generic marker begins at offset \<open>j\<close>, or
  a line consisting of \<open># more\<close> does.
\<close>

definition dividerAt :: "dividerKind \<Rightarrow> string \<Rightarrow> nat \<Rightarrow> bool" where
  "dividerAt k inp j =
     (case k of
        DividerGeneric \<Rightarrow> hasPrefix (drop j inp) (dividerOf DividerGeneric)
      | DividerOrg \<Rightarrow> lineStartAt inp j \<and> isDividerOrgLine (drop j inp))"

subsection \<open>What a run leaves in the queue\<close>

text \<open>
  The items the body state adds from offset \<open>c\<close> on, looking for the divider \<open>k\<close>:
  Text and divider items and a final EndOfInput; a divider item's bytes are the
  marker, at an offset where a divider stands; no divider begins inside a Text item,
  and none is empty; the spans lie in order from \<open>c\<close> and together are the input
  from \<open>c\<close> on.
\<close>

definition bodyOK :: "dividerKind \<Rightarrow> string \<Rightarrow> nat \<Rightarrow> Item list \<Rightarrow> bool" where
  "bodyOK k inp c body =
     (body \<noteq> [] \<and> typ' (last body) = tEOF
      \<and> list_all (\<lambda>item. typ' item = tText \<or> typ' item = dividerType k) (butlast body)
      \<and> list_all (\<lambda>item. typ' item = dividerType k \<longrightarrow>
            Val item = dividerOf k \<and> dividerAt k inp (pos item)) body
      \<and> list_all (\<lambda>item. typ' item = tText \<longrightarrow>
            Val item \<noteq> [] \<and> (\<forall>j<length (Val item). \<not> dividerAt k inp (pos item + j))) body
      \<and> pos (hd body) = c
      \<and> spansFrom inp c body
      \<and> concat (map Val body) = drop c inp)"

text \<open>
  The lexer after the intro state: one Error item and the terminal signal; or no item,
  the cursor unmoved; or one HTMLLead or front-matter item. The item selects the
  divider the body state looks for.
\<close>

definition modeOf :: "itemType \<Rightarrow> dividerKind" where
  "modeOf t = (if t = tFrontMatterORG then DividerOrg else DividerGeneric)"

definition introItemOK :: "string \<Rightarrow> pageLexer \<Rightarrow> Item \<Rightarrow> bool" where
  "introItemOK inp l item =
     ((typ' item = tHTMLLead \<or> isFrontMatter (typ' item))
      \<and> summaryDivider l = (if typ' item = tFrontMatterORG then DividerOrg else DividerGeneric)
      \<and> pos item + length (Val item) \<le> cursor l
      \<and> Val item = slice inp (pos item) (pos item + length (Val item))
      \<and> (typ' item \<noteq> tFrontMatterYAML \<and> typ' item \<noteq> tFrontMatterTOML
           \<longrightarrow> pos item = 0 \<and> cursor l = length (Val item)))"

definition introOK :: "(string \<Rightarrow> bool) \<Rightarrow> string \<Rightarrow> pageLexer \<Rightarrow> bool" where
  "introOK orgStyle inp l =
     (input l = inp \<and> tokenStart l = cursor l \<and> cursor l \<le> length inp
      \<and> ((state l = None \<and> (\<exists>p. items l = [\<lparr>typ' = tError, pos = p, Val = []\<rparr>]))
         \<or> (state l = Some lexMainSection \<and> items l = [] \<and> cursor l = 0
             \<and> summaryDivider l = (if orgStyle inp then DividerOrg else DividerGeneric))
         \<or> (state l = Some lexMainSection \<and> (\<exists>item. items l = [item] \<and> introItemOK inp l item))))"

abbreviation lexer0 :: "string \<Rightarrow> pageLexer" where
  "lexer0 inp \<equiv> newPageLexer inp 0 lexIntroSection"

text \<open>The items of a whole run from the intro state.\<close>

definition runOK :: "(string \<Rightarrow> bool) \<Rightarrow> string \<Rightarrow> Item list \<Rightarrow> bool" where
  "runOK orgStyle inp q =
     ((\<exists>p. q = [\<lparr>typ' = tError, pos = p, Val = []\<rparr>])
      \<or> bodyOK (if orgStyle inp then DividerOrg else DividerGeneric) inp 0 q
      \<or> (\<exists>item c body. q = item # body
            \<and> (typ' item = tHTMLLead \<or> isFrontMatter (typ' item))
            \<and> pos item + length (Val item) \<le> c \<and> c \<le> length inp
            \<and> Val item = slice inp (pos item) (pos item + length (Val item))
            \<and> (typ' item \<noteq> tFrontMatterYAML \<and> typ' item \<noteq> tFrontMatterTOML
                 \<longrightarrow> pos item = 0 \<and> c = length (Val item))
            \<and> bodyOK (modeOf (typ' item)) inp c body))"

section \<open>Properties of the option string\<close>

lemma optionsStrLoop_join:
  "i + length keys = length options \<Longrightarrow>
   optionsStrLoop options i keys acc =
     acc @ stringsJoin '','' (map (\<lambda>k. k @ ''='' @ mapIndex options k) keys)"
proof (induction keys arbitrary: i acc)
  case Nil
  then show ?case by simp
next
  case (Cons k keys)
  let ?s = "acc @ k @ ''='' @ mapIndex options k"
  show ?case
  proof (cases keys)
    case Nil
    with Cons.prems have "\<not> int i < int (length options) - 1" by simp
    then have "optionsStrLoop options i (k # keys) acc = optionsStrLoop options (Suc i) keys ?s"
      by (simp add: Let_def)
    with Nil show ?thesis by simp
  next
    case (Cons k' ks)
    with Cons.prems have lt: "int i < int (length options) - 1" by simp
    from Cons.prems have len: "Suc i + length keys = length options" by simp
    from lt have "optionsStrLoop options i (k # keys) acc
        = optionsStrLoop options (Suc i) keys (?s @ '','')"
      by (simp add: Let_def)
    also have "\<dots> = (?s @ '','') @ stringsJoin '','' (map (\<lambda>k. k @ ''='' @ mapIndex options k) keys)"
      by (rule Cons.IH [OF len])
    finally show ?thesis using Cons by simp
  qed
qed

lemma sort_keys_iter:
  assumes "distinct (map fst options)" and "mset (iter options) = mset options"
  shows "sort (map fst (iter options)) = sorted_list_of_set (dom (map_of options))"
proof -
  have m: "mset (map fst (iter options)) = mset (map fst options)"
    using assms(2) by (metis mset_map)
  then have s: "set (map fst (iter options)) = set (map fst options)"
    by (rule mset_eq_setD)
  have d: "distinct (map fst (iter options))"
    using m assms(1) by (metis mset_eq_imp_distinct_iff)
  have "sort (map fst (iter options)) = sorted_list_of_set (set (map fst (iter options)))"
    using d by (simp add: sorted_list_of_set_sort_remdups distinct_remdups_id del: set_map)
  also have "set (map fst (iter options)) = dom (map_of options)"
    using s by (simp add: dom_map_of_conv_image_fst)
  finally show ?thesis .
qed

lemma createOptionsString_sorted:
  assumes "distinct (map fst options)" and "mset (iter options) = mset options"
  shows "createOptionsString iter options = sortedOptionsString (map_of options)"
proof -
  let ?keys = "sorted_list_of_set (dom (map_of options))"
  have keys: "sort (map fst (iter options)) = ?keys"
    by (rule sort_keys_iter [of options iter, OF assms])
  have "length (sort (map fst (iter options))) = length options"
    using assms(2) by (metis length_map length_sort size_mset)
  with keys have len: "0 + length ?keys = length options" by simp
  have fin: "finite (dom (map_of options))" by (rule finite_dom_map_of)
  have same: "map (\<lambda>k. k @ ''='' @ mapIndex options k) ?keys
      = map (\<lambda>k. k @ ''='' @ the (map_of options k)) ?keys"
  proof (rule map_cong [OF refl])
    fix k assume "k \<in> set ?keys"
    with fin have "k \<in> dom (map_of options)" by simp
    then show "k @ ''='' @ mapIndex options k = k @ ''='' @ the (map_of options k)"
      by (auto simp: mapIndex_def)
  qed
  have "createOptionsString iter options = optionsStrLoop options 0 ?keys []"
    by (simp add: createOptionsString_def keys)
  also have "\<dots> = [] @ stringsJoin '','' (map (\<lambda>k. k @ ''='' @ mapIndex options k) ?keys)"
    by (rule optionsStrLoop_join [OF len])
  also have "\<dots> = sortedOptionsString (map_of options)"
    by (simp only: same sortedOptionsString_def append_Nil)
  finally show ?thesis .
qed

lemma distinct_mapAssign: "distinct (map fst m) \<Longrightarrow> distinct (map fst (mapAssign m k v))"
  by (simp add: mapAssign_def distinct_update)

lemma distinct_parseOptionsLoop:
  "distinct (map fst m) \<Longrightarrow> parseOptionsLoop toLower m vs = Inr m' \<Longrightarrow> distinct (map fst m')"
proof (induction vs arbitrary: m)
  case Nil
  then show ?case by simp
next
  case (Cons v vs)
  let ?kv = "stringsSplit (CHR ''='') v"
  let ?key = "toLower (stringsTrimSpace (hd ?kv))"
  from Cons.prems(2) have ok: "\<not> (length ?kv \<noteq> 2 \<or> \<not> pygmentsKeywords ?key)"
    by (auto simp: Let_def split: if_splits)
  with Cons.prems(2) have "parseOptionsLoop toLower (mapAssign m ?key (?kv ! 1)) vs = Inr m'"
    by (simp add: Let_def)
  with Cons.IH [OF distinct_mapAssign [OF Cons.prems(1)]] show ?case by blast
qed

lemma distinct_parseOptions:
  "distinct (map fst m) \<Longrightarrow> parseOptions toLower m s = Inr m' \<Longrightarrow> distinct (map fst m')"
  by (auto simp: parseOptions_def Let_def split: if_splits dest: distinct_parseOptionsLoop)

lemma distinct_parseDefaultPygmentsOpts:
  "parseDefaultPygmentsOpts toLower cfg = Inr m \<Longrightarrow> distinct (map fst m)"
  unfolding parseDefaultPygmentsOpts_def Let_def
  by (auto split: sum.splits option.splits if_splits
      dest!: distinct_parseOptions [rotated] intro!: distinct_mapAssign)

lemma parsePygmentsOpts_iter:
  assumes "\<forall>m. mset (iter1 m) = mset m" and "\<forall>m. mset (iter2 m) = mset m"
  shows "parsePygmentsOpts toLower iter1 cfg s = parsePygmentsOpts toLower iter2 cfg s"
proof (cases "parseDefaultPygmentsOpts toLower cfg")
  case (Inl e)
  then show ?thesis by (simp add: parsePygmentsOpts_def)
next
  case (Inr m)
  note d = distinct_parseDefaultPygmentsOpts [OF Inr]
  show ?thesis
  proof (cases "parseOptions toLower m s")
    case (Inl e)
    with Inr show ?thesis by (simp add: parsePygmentsOpts_def)
  next
    case r: (Inr m')
    have d': "distinct (map fst m')" by (rule distinct_parseOptions [OF d r])
    have "createOptionsString iter1 m' = createOptionsString iter2 m'"
      using assms d' by (simp add: createOptionsString_sorted)
    with Inr r show ?thesis by (simp add: parsePygmentsOpts_def)
  qed
qed

text \<open>
  C10. \<open>createOptionsString\<close> is a function of the map's contents alone: whatever order
  \<open>range\<close> visits the entries in (\<open>iter1\<close>, \<open>iter2\<close>, each rearranging the entries
  it is given) and whatever order the entries were inserted in (\<open>o1\<close>, \<open>o2\<close>: two
  layouts of one map), it gives the \<open>key=value\<close> pairs in ascending key order joined
  by commas; so for one configuration and one \<open>(code, lang, optsStr)\<close> two calls of
  \<open>Highlight\<close> feed SHA-1 the same bytes and get the same cache key.
\<close>

theorem createOptionsString_deterministic:
  assumes "\<forall>m. mset (iter1 m) = mset m" and "\<forall>m. mset (iter2 m) = mset m"
    and "distinct (map fst o1)" and "distinct (map fst o2)" and "map_of o1 = map_of o2"
  shows "createOptionsString iter1 o1 = sortedOptionsString (map_of o1)
       \<and> createOptionsString iter2 o2 = createOptionsString iter1 o1
       \<and> HighlightCacheKey sha1 hasPygments toLower iter1 cfg code lang optsStr
         = HighlightCacheKey sha1 hasPygments toLower iter2 cfg code lang optsStr"
  using assms parsePygmentsOpts_iter [OF assms(1,2)]
  by (simp add: createOptionsString_sorted HighlightCacheKey_def)

theorem createOptionsString_deterministic_witness:
  "(\<forall>m::gomap. mset (rev m) = mset m) \<and> (\<forall>m::gomap. mset (id m) = mset m)
   \<and> distinct (map fst [(''style'', ''monokai''), (''encoding'', ''utf8'')])
   \<and> distinct (map fst [(''encoding'', ''utf8''), (''style'', ''monokai'')])
   \<and> createOptionsString id [(''encoding'', ''utf8''), (''style'', ''monokai'')]
       = createOptionsString rev [(''style'', ''monokai''), (''encoding'', ''utf8'')]
   \<and> createOptionsString rev [(''style'', ''monokai''), (''encoding'', ''utf8'')]
       = ''encoding=utf8,style=monokai''"
proof -
  have m: "map_of [(''style'', ''monokai''), (''encoding'', ''utf8'')]
         = map_of [(''encoding'', ''utf8''), (''style'', ''monokai'')]"
    by (auto simp: fun_eq_iff)
  have e: "createOptionsString rev [(''style'', ''monokai''), (''encoding'', ''utf8'')]
       = ''encoding=utf8,style=monokai''"
    by (simp add: createOptionsString_def mapIndex_def Let_def)
  have e': "createOptionsString id [(''encoding'', ''utf8''), (''style'', ''monokai'')]
       = ''encoding=utf8,style=monokai''"
    by (simp add: createOptionsString_def mapIndex_def Let_def)
  show ?thesis
    using e e' createOptionsString_deterministic [of rev id
        "[(''style'', ''monokai''), (''encoding'', ''utf8'')]"
        "[(''encoding'', ''utf8''), (''style'', ''monokai'')]", OF _ _ _ _ m]
    by simp
qed

section \<open>Properties of the output paths\<close>

lemma length_takeWhile_less: "x \<in> set xs \<Longrightarrow> \<not> P x \<Longrightarrow> length (takeWhile P xs) < length xs"
  by (induction xs) auto

lemma pathExt_length: "length (pathExt f) \<le> length f"
proof -
  let ?tail = "takeWhile (\<lambda>c. c \<noteq> CHR ''/'') (rev f)"
  show ?thesis
  proof (cases "CHR ''.'' \<in> set ?tail")
    case False
    then show ?thesis by (simp add: pathExt_def Let_def)
  next
    case True
    then have "length (takeWhile (\<lambda>c. c \<noteq> CHR ''.'') ?tail) < length ?tail"
      by (rule length_takeWhile_less) simp
    moreover have "length ?tail \<le> length (rev f)" by (rule length_takeWhile_le)
    ultimately show ?thesis using True by (simp add: pathExt_def Let_def)
  qed
qed

lemma filename_no_panic: "\<exists>name. filename f = Inr name"
  using pathExt_length [of f] by (simp add: filename_def Let_def)

lemma Translate_nil: "\<exists>dest. Translate pathJoin fs src = Inr (dest, None)"
proof -
  obtain dir base where sp: "pathSplit src = (dir, base)" by (cases "pathSplit src")
  obtain name where fn: "filename base = Inr name" using filename_no_panic by blast
  show ?thesis by (simp add: Translate_def sp fn Let_def)
qed

text \<open>
  C9. \<open>Translate\<close> returns a nil error for every path, without panicking: \<open>"/"\<close> gives
  \<open>"index.html"\<close>, and any other path goes through string manipulation only. So
  \<open>Publish\<close> never returns at the error check that follows its call of \<open>Translate\<close>.
\<close>

theorem Translate_never_fails:
  "(\<exists>dest. Translate pathJoin fs src = Inr (dest, None))
   \<and> Translate pathJoin fs ''/'' = Inr (''index.html'', None)
   \<and> Publish pathJoin os fs src r \<noteq> Inr (ReturnTranslateErr err)
   \<and> (\<exists>ret. Publish pathJoin os fs src r = Inr ret)"
proof -
  obtain dest where t: "Translate pathJoin fs src = Inr (dest, None)"
    using Translate_nil by blast
  have "Translate pathJoin fs ''/'' = Inr (''index.html'', None)"
    by (simp add: Translate_def)
  moreover have "Publish pathJoin os fs src r \<noteq> Inr (ReturnTranslateErr err)"
    by (simp add: Publish_def t Let_def split: option.split)
  moreover have "\<exists>ret. Publish pathJoin os fs src r = Inr ret"
    by (simp add: Publish_def t Let_def split: option.split)
  ultimately show ?thesis using t by blast
qed

section \<open>Properties of the page lexer\<close>

lemma hasPrefix_length: "hasPrefix p d \<Longrightarrow> length d \<le> length p"
  unfolding hasPrefix_def by (metis length_take min.cobounded1)

lemma hasPrefix_slice:
  "hasPrefix (drop c inp) d \<Longrightarrow> slice inp c (c + length d) = d"
  by (simp add: hasPrefix_def slice_def)

lemma indexBytes_Some_le: "indexBytes sep p = Some k \<Longrightarrow> k \<le> length p"
  by (induction p arbitrary: k) (auto split: if_splits)

lemma indexBytes_zero: "indexBytes sep p = Some 0 \<Longrightarrow> hasPrefix p sep"
  by (cases p) (auto simp: hasPrefix_def split: if_splits)

lemma indexDividerOrg_Some_le: "indexDividerOrg b p = Some k \<Longrightarrow> k \<le> length p"
  by (induction p arbitrary: k b) (auto split: if_splits)

lemma indexDividerOrg_zero: "indexDividerOrg b p = Some 0 \<Longrightarrow> hasPrefix p ''# more''"
  by (cases p) (auto simp: isDividerOrgLine_def split: if_splits)

lemma indexDivider_le: "indexDivider l = Some k \<Longrightarrow> k \<le> length (rest l)"
  by (auto simp: indexDivider_def dest: indexBytes_Some_le indexDividerOrg_Some_le
      split: dividerKind.splits)

lemma indexDivider_zero:
  "indexDivider l = Some 0 \<Longrightarrow> hasPrefix (rest l) (dividerOf (summaryDivider l))"
  by (auto simp: indexDivider_def dividerOf_def dest: indexBytes_zero indexDividerOrg_zero
      split: dividerKind.splits)

lemma hasPrefix_Nil: "d \<noteq> [] \<Longrightarrow> \<not> hasPrefix [] d"
  by (auto simp: hasPrefix_def)

lemma indexBytes_None: "indexBytes sep p = None \<Longrightarrow> sep \<noteq> [] \<Longrightarrow> \<not> hasPrefix (drop j p) sep"
proof (induction p arbitrary: j)
  case Nil
  then show ?case by (simp add: hasPrefix_Nil)
next
  case (Cons c p)
  then show ?case by (cases j) (auto split: if_splits)
qed

lemma indexBytes_Some:
  "indexBytes sep p = Some n \<Longrightarrow> hasPrefix (drop n p) sep \<and> (\<forall>j<n. \<not> hasPrefix (drop j p) sep)"
proof (induction p arbitrary: n)
  case Nil
  then show ?case by (auto simp: hasPrefix_def split: if_splits)
next
  case (Cons c p)
  show ?case
  proof (cases "hasPrefix (c # p) sep")
    case True
    with Cons.prems show ?thesis by simp
  next
    case False
    with Cons.prems obtain m where m: "indexBytes sep p = Some m" "n = Suc m" by auto
    from Cons.IH [OF m(1)] False m(2) show ?thesis
      by (auto simp: less_Suc_eq_0_disj)
  qed
qed

lemma drop_Cons_nth: "drop c inp = x # p \<Longrightarrow> c < length inp \<and> inp ! c = x \<and> drop (Suc c) inp = p"
  by (metis Cons_nth_drop_Suc drop_eq_Nil list.distinct(1) list.inject not_le)

lemma lineStartAt_Suc:
  "drop c inp = x # p \<Longrightarrow> lineStartAt inp (Suc c) = endsLine x p"
  by (auto simp: lineStartAt_def dest!: drop_Cons_nth)

lemma indexDividerOrg_None:
  "indexDividerOrg (lineStartAt inp c) p = None \<Longrightarrow> drop c inp = p \<Longrightarrow> j < length p
   \<Longrightarrow> \<not> dividerAt DividerOrg inp (c + j)"
proof (induction p arbitrary: c j)
  case Nil
  then show ?case by simp
next
  case (Cons x p)
  from Cons.prems(1) have a: "\<not> (lineStartAt inp c \<and> isDividerOrgLine (x # p))"
    and b: "indexDividerOrg (endsLine x p) p = None"
    by (auto split: if_splits)
  show ?case
  proof (cases j)
    case 0
    with a Cons.prems(2) show ?thesis by (simp add: dividerAt_def)
  next
    case (Suc i)
    have "\<not> dividerAt DividerOrg inp (Suc c + i)"
    proof (rule Cons.IH)
      show "indexDividerOrg (lineStartAt inp (Suc c)) p = None"
        using b lineStartAt_Suc [OF Cons.prems(2)] by simp
      show "drop (Suc c) inp = p" using drop_Cons_nth [OF Cons.prems(2)] by simp
      show "i < length p" using Cons.prems(3) Suc by simp
    qed
    with Suc show ?thesis by simp
  qed
qed

lemma indexDividerOrg_Some:
  "indexDividerOrg (lineStartAt inp c) p = Some n \<Longrightarrow> drop c inp = p
   \<Longrightarrow> dividerAt DividerOrg inp (c + n) \<and> (\<forall>j<n. \<not> dividerAt DividerOrg inp (c + j))"
proof (induction p arbitrary: c n)
  case Nil
  then show ?case by simp
next
  case (Cons x p)
  show ?case
  proof (cases "lineStartAt inp c \<and> isDividerOrgLine (x # p)")
    case True
    with Cons.prems show ?thesis by (simp add: dividerAt_def)
  next
    case False
    with Cons.prems(1) obtain m where m: "indexDividerOrg (endsLine x p) p = Some m" "n = Suc m"
      by auto
    have "dividerAt DividerOrg inp (Suc c + m) \<and> (\<forall>j<m. \<not> dividerAt DividerOrg inp (Suc c + j))"
    proof (rule Cons.IH)
      show "indexDividerOrg (lineStartAt inp (Suc c)) p = Some m"
        using m(1) lineStartAt_Suc [OF Cons.prems(2)] by simp
      show "drop (Suc c) inp = p" using drop_Cons_nth [OF Cons.prems(2)] by simp
    qed
    moreover have "\<not> dividerAt DividerOrg inp c"
      using False Cons.prems(2) by (simp add: dividerAt_def)
    ultimately show ?thesis using m(2)
      by (auto simp: less_Suc_eq_0_disj)
  qed
qed

lemma indexDivider_Some:
  assumes "indexDivider l = Some n"
  shows "dividerAt (summaryDivider l) (input l) (cursor l + n)
       \<and> (\<forall>j<n. \<not> dividerAt (summaryDivider l) (input l) (cursor l + j))"
proof (cases "summaryDivider l")
  case DividerGeneric
  with assms have "indexBytes (dividerOf DividerGeneric) (rest l) = Some n"
    by (simp add: indexDivider_def)
  from indexBytes_Some [OF this] DividerGeneric show ?thesis
    by (simp add: dividerAt_def rest_def add.commute)
next
  case DividerOrg
  with assms have "indexDividerOrg (lineStartAt (input l) (cursor l)) (rest l) = Some n"
    by (simp add: indexDivider_def)
  from indexDividerOrg_Some [OF this] DividerOrg show ?thesis
    by (simp add: rest_def)
qed

lemma indexDivider_None:
  assumes "indexDivider l = None" and "j < length (rest l)"
  shows "\<not> dividerAt (summaryDivider l) (input l) (cursor l + j)"
proof (cases "summaryDivider l")
  case DividerGeneric
  with assms have "indexBytes (dividerOf DividerGeneric) (rest l) = None"
    by (simp add: indexDivider_def)
  from indexBytes_None [OF this, of j] DividerGeneric show ?thesis
    by (simp add: dividerAt_def rest_def add.commute dividerOf_def)
next
  case DividerOrg
  with assms have "indexDividerOrg (lineStartAt (input l) (cursor l)) (rest l) = None"
    by (simp add: indexDivider_def)
  from indexDividerOrg_None [OF this _ assms(2)] DividerOrg show ?thesis
    by (simp add: rest_def)
qed

lemma lexMain_end:
  assumes "rest l = []" and "tokenStart l = cursor l"
  shows "lexMain l = l\<lparr>items := items l @ [\<lparr>typ' = tEOF, pos = cursor l, Val = []\<rparr>], state := None\<rparr>"
  using assms by (simp add: lexMain_def emit_def slice_def)

lemma lexMain_item:
  assumes ne: "rest l \<noteq> []" and ts: "tokenStart l = cursor l"
  shows "\<exists>item k. 0 < k \<and> cursor l + k \<le> length (input l)
          \<and> lexMain l = l\<lparr>items := items l @ [item], cursor := cursor l + k,
                            tokenStart := cursor l + k\<rparr>
          \<and> (typ' item = tText \<or> typ' item = dividerType (summaryDivider l))
          \<and> (typ' item = dividerType (summaryDivider l) \<longrightarrow>
                Val item = dividerOf (summaryDivider l)
                \<and> dividerAt (summaryDivider l) (input l) (cursor l))
          \<and> (typ' item = tText \<longrightarrow>
                (\<forall>j<k. \<not> dividerAt (summaryDivider l) (input l) (cursor l + j)))
          \<and> pos item = cursor l \<and> Val item = slice (input l) (cursor l) (cursor l + k)"
proof -
  from ne have lt: "cursor l < length (input l)" by (simp add: rest_def)
  have len: "length (rest l) = length (input l) - cursor l" by (simp add: rest_def)
  have dt: "dividerType (summaryDivider l) \<noteq> tText"
    by (simp add: dividerType_def split: dividerKind.split)
  show ?thesis
  proof (cases "indexDivider l")
    case None
    let ?k = "length (rest l)"
    let ?item = "\<lparr>typ' = tText, pos = cursor l, Val = slice (input l) (cursor l) (cursor l + ?k)\<rparr>"
    have "lexMain l = l\<lparr>items := items l @ [?item], cursor := cursor l + ?k,
                          tokenStart := cursor l + ?k\<rparr>"
      using ne None ts by (simp add: lexMain_def emit_def advance_def)
    moreover have "0 < ?k" using ne by simp
    moreover have "cursor l + ?k \<le> length (input l)" using lt len by simp
    moreover have "\<forall>j<?k. \<not> dividerAt (summaryDivider l) (input l) (cursor l + j)"
      using indexDivider_None [OF None] by blast
    ultimately show ?thesis using dt
      by (intro exI [of _ ?item] exI [of _ ?k]) simp
  next
    case (Some i)
    show ?thesis
    proof (cases i)
      case 0
      let ?d = "dividerOf (summaryDivider l)"
      let ?k = "length ?d"
      let ?item = "\<lparr>typ' = dividerType (summaryDivider l), pos = cursor l,
                     Val = slice (input l) (cursor l) (cursor l + ?k)\<rparr>"
      from Some 0 have hp: "hasPrefix (rest l) ?d" by (simp add: indexDivider_zero)
      have "lexMain l = l\<lparr>items := items l @ [?item], cursor := cursor l + ?k,
                            tokenStart := cursor l + ?k\<rparr>"
        using ne Some 0 ts by (simp add: lexMain_def emit_def advance_def)
      moreover have "0 < ?k" by (simp add: dividerOf_def split: dividerKind.split)
      moreover have "cursor l + ?k \<le> length (input l)"
        using hasPrefix_length [OF hp] lt len by simp
      moreover have "slice (input l) (cursor l) (cursor l + ?k) = ?d"
        using hp by (simp add: hasPrefix_slice rest_def)
      moreover have "dividerAt (summaryDivider l) (input l) (cursor l)"
        using indexDivider_Some [of l 0] Some 0 by simp
      ultimately show ?thesis using dt
        by (intro exI [of _ ?item] exI [of _ ?k]) simp
    next
      case (Suc n)
      let ?k = "Suc n"
      let ?item = "\<lparr>typ' = tText, pos = cursor l, Val = slice (input l) (cursor l) (cursor l + ?k)\<rparr>"
      have "lexMain l = l\<lparr>items := items l @ [?item], cursor := cursor l + ?k,
                            tokenStart := cursor l + ?k\<rparr>"
        using ne Some Suc ts by (simp add: lexMain_def emit_def advance_def)
      moreover have "cursor l + ?k \<le> length (input l)"
        using indexDivider_le [of l i] Some Suc lt len by simp
      moreover have "\<forall>j<?k. \<not> dividerAt (summaryDivider l) (input l) (cursor l + j)"
        using indexDivider_Some [of l i] Some Suc by simp
      ultimately show ?thesis using dt
        by (intro exI [of _ ?item] exI [of _ ?k]) simp
    qed
  qed
qed

lemma run_None: "state l = None \<Longrightarrow> run orgStyle l = l"
  by (simp add: run.simps)

lemma run_Some: "state l = Some st \<Longrightarrow> run orgStyle l = run orgStyle (step orgStyle st l)"
  by (subst run.simps) simp

lemma run_main:
  assumes "state l = Some lexMainSection" and "tokenStart l = cursor l"
    and "cursor l \<le> length (input l)"
  shows "\<exists>body. items (run orgStyle l) = items l @ body \<and> state (run orgStyle l) = None
           \<and> bodyOK (summaryDivider l) (input l) (cursor l) body"
  using assms
proof (induction "length (input l) - cursor l" arbitrary: l rule: less_induct)
  case less
  have r: "run orgStyle l = run orgStyle (lexMain l)"
    using less.prems(1) by (simp add: run_Some)
  show ?case
  proof (cases "rest l = []")
    case True
    let ?e = "\<lparr>typ' = tEOF, pos = cursor l, Val = []\<rparr>"
    from True less.prems(3) have c: "drop (cursor l) (input l) = []" by (simp add: rest_def)
    have "lexMain l = l\<lparr>items := items l @ [?e], state := None\<rparr>"
      by (rule lexMain_end [OF True less.prems(2)])
    then have "run orgStyle l = l\<lparr>items := items l @ [?e], state := None\<rparr>"
      using r by (simp add: run_None)
    moreover have "bodyOK (summaryDivider l) (input l) (cursor l) [?e]"
      using c by (simp add: bodyOK_def isTerminal_def dividerType_def split: dividerKind.split)
    ultimately show ?thesis by (intro exI [of _ "[?e]"]) simp
  next
    case False
    from lexMain_item [OF False less.prems(2)] obtain item k where
      k: "0 < k" "cursor l + k \<le> length (input l)"
      and lm: "lexMain l = l\<lparr>items := items l @ [item], cursor := cursor l + k,
                               tokenStart := cursor l + k\<rparr>"
      and ty: "typ' item = tText \<or> typ' item = dividerType (summaryDivider l)"
      and dv: "typ' item = dividerType (summaryDivider l) \<longrightarrow>
                 Val item = dividerOf (summaryDivider l)
                 \<and> dividerAt (summaryDivider l) (input l) (cursor l)"
      and tx: "typ' item = tText \<longrightarrow>
                 (\<forall>j<k. \<not> dividerAt (summaryDivider l) (input l) (cursor l + j))"
      and ps: "pos item = cursor l" and vl: "Val item = slice (input l) (cursor l) (cursor l + k)"
      by blast
    let ?l = "lexMain l"
    have "length (input ?l) - cursor ?l < length (input l) - cursor l"
      using k lm by simp
    moreover have "state ?l = Some lexMainSection" using lm less.prems(1) by simp
    moreover have "tokenStart ?l = cursor ?l" using lm by simp
    moreover have "cursor ?l \<le> length (input ?l)" using lm k by simp
    ultimately obtain body where
      b: "items (run orgStyle ?l) = items ?l @ body" "state (run orgStyle ?l) = None"
         "bodyOK (summaryDivider ?l) (input ?l) (cursor ?l) body"
      using less.hyps [of ?l] by blast
    from b(3) lm have b': "bodyOK (summaryDivider l) (input l) (cursor l + k) body" by simp
    have len: "length (Val item) = k" using vl k by (simp add: slice_def)
    have nt: "\<not> isTerminal (typ' item)"
      using ty by (auto simp: isTerminal_def dividerType_def split: dividerKind.splits)
    have cat: "Val item @ drop (cursor l + k) (input l) = drop (cursor l) (input l)"
      using vl by (simp add: slice_def) (metis add.commute append_take_drop_id drop_drop)
    have "bodyOK (summaryDivider l) (input l) (cursor l) (item # body)"
      using b' ty dv tx ps len nt k cat vl
      by (auto simp: bodyOK_def)
    moreover have "items (run orgStyle l) = items l @ item # body"
      using r b(1) lm by simp
    ultimately show ?thesis using r b(2) by (intro exI [of _ "item # body"]) simp
  qed
qed

lemma lineTerminator_le: "lineTerminator p \<le> length p"
  by (induction p rule: lineTerminator.induct) auto

lemma findCloser_le: "findCloser cl b p = Some n \<Longrightarrow> n \<le> length p"
  by (induction p arbitrary: n b) (auto split: if_splits)

lemma findCloser_closer: "findCloser cl b p = Some n \<Longrightarrow> isCloserLine cl (drop n p)"
  by (induction p arbitrary: n b) (auto split: if_splits)

lemma jsonEnd_le: "jsonEnd lv q p = Some n \<Longrightarrow> n \<le> length p"
  by (induction lv q p arbitrary: n rule: jsonEnd.induct) (auto split: if_splits list.splits)

lemma orgLines_le: "orgLines b p \<le> length p"
  by (induction p arbitrary: b) auto

lemma prefix_lt_le:
  assumes "hasPrefix p d"
  shows "length d + lineTerminator (drop (length d) p) \<le> length p"
  using hasPrefix_length [OF assms] lineTerminator_le [of "drop (length d) p"] by simp

lemma rest_lexer0: "rest (lexer0 inp) = inp"
  by (simp add: rest_def newPageLexer_def)

lemma lexHTMLLead_ok:
  assumes "lexHTMLLead (lexer0 inp) = Some l"
  shows "introOK orgStyle inp l"
proof -
  let ?ws = "takeWhile isSpace inp"
  let ?k = "length ?ws + 1"
  from assms have hp: "hasPrefix (drop (length ?ws) inp) ''<''"
    by (simp add: lexHTMLLead_def rest_lexer0 Let_def split: if_splits)
  from hasPrefix_length [OF hp] have k: "?k \<le> length inp" by simp
  from assms hp have l: "l = (emit tHTMLLead (advance ?k (lexer0 inp)))\<lparr>state := Some lexMainSection\<rparr>"
    by (simp add: lexHTMLLead_def rest_lexer0 Let_def)
  show ?thesis using k
    by (simp add: l introOK_def introItemOK_def emit_def advance_def newPageLexer_def slice_def)
qed

lemma lexFrontMatterSection_ok:
  assumes "lexFrontMatterSection tp delim closers (lexer0 inp) = Some l"
    and "tp = tFrontMatterYAML \<or> tp = tFrontMatterTOML"
    and "\<forall>d \<in> set closers. length d = length delim"
  shows "introOK orgStyle inp l"
proof -
  let ?o = "length delim + lineTerminator (drop (length delim) inp)"
  let ?l1 = "ignore (advance ?o (lexer0 inp))"
  from assms(1) have hp: "hasPrefix inp delim"
    by (simp add: lexFrontMatterSection_def rest_lexer0 split: if_splits)
  from assms(1) have lt: "0 < lineTerminator (drop (length delim) inp)"
    by (simp add: lexFrontMatterSection_def rest_lexer0 split: if_splits)
  have o: "?o \<le> length inp" by (rule prefix_lt_le [OF hp])
  have r1: "rest ?l1 = drop ?o inp"
    by (simp add: rest_def ignore_def advance_def newPageLexer_def)
  show ?thesis
  proof (cases "findCloser closers True (drop ?o inp)")
    case None
    with assms(1) hp lt r1 have "l = errorf ?l1"
      by (simp add: lexFrontMatterSection_def rest_lexer0 Let_def)
    then show ?thesis using o
      by (simp add: introOK_def errorf_def ignore_def advance_def newPageLexer_def)
  next
    case (Some n)
    let ?l2 = "emit tp (advance n ?l1)"
    let ?c = "length delim + lineTerminator (drop (length delim) (rest ?l2))"
    have r2: "rest ?l2 = drop (?o + n) inp"
      by (simp add: rest_def emit_def ignore_def advance_def newPageLexer_def)
    from findCloser_le [OF Some] o have n: "?o + n \<le> length inp" by simp
    from findCloser_closer [OF Some] obtain d where
      d: "d \<in> set closers" "hasPrefix (drop (?o + n) inp) d"
      by (auto simp: isCloserLine_def add.commute)
    from d(1) assms(3) have ld: "length d = length delim" by simp
    from prefix_lt_le [OF d(2)] ld n have c: "?o + n + ?c \<le> length inp"
      by (simp add: r2)
    from assms(1) hp lt r1 Some
    have l: "l = (ignore (advance ?c ?l2))\<lparr>state := Some lexMainSection\<rparr>"
      by (simp add: lexFrontMatterSection_def rest_lexer0 Let_def)
    have v: "length (slice inp ?o (?o + n)) = n" using n by (simp add: slice_def)
    show ?thesis using c n assms(2) v
      by (auto simp: l introOK_def introItemOK_def emit_def ignore_def advance_def
          newPageLexer_def isFrontMatter_def)
  qed
qed

lemma lexFrontMatterJSON_ok:
  assumes "lexFrontMatterJSON (lexer0 inp) = Some l"
  shows "introOK orgStyle inp l"
proof (cases "jsonEnd 0 False inp")
  case None
  with assms have "l = errorf (lexer0 inp)"
    by (simp add: lexFrontMatterJSON_def rest_lexer0 split: if_splits)
  then show ?thesis by (simp add: introOK_def errorf_def newPageLexer_def)
next
  case (Some n)
  let ?k = "n + lineTerminator (drop n inp)"
  from jsonEnd_le [OF Some] lineTerminator_le [of "drop n inp"]
  have k: "?k \<le> length inp" by simp
  from assms Some
  have l: "l = (emit tFrontMatterJSON (advance ?k (lexer0 inp)))\<lparr>state := Some lexMainSection\<rparr>"
    by (simp add: lexFrontMatterJSON_def rest_lexer0 split: if_splits)
  show ?thesis using k
    by (simp add: l introOK_def introItemOK_def emit_def advance_def newPageLexer_def
        slice_def isFrontMatter_def)
qed

lemma lexFrontMatterOrgMode_ok:
  assumes "lexFrontMatterOrgMode (lexer0 inp) = Some l"
  shows "introOK orgStyle inp l"
proof -
  let ?blank = "takeWhile (\<lambda>c. isSpace c \<or> isEndOfLine c) inp"
  let ?p = "drop (length ?blank) inp"
  let ?k = "length ?blank + orgLines True ?p"
  have "length ?blank \<le> length inp" by (rule length_takeWhile_le)
  with orgLines_le [of True ?p] have k: "?k \<le> length inp" by simp
  from assms
  have l: "l = (emit tFrontMatterORG (advance ?k (lexer0 inp)))
                 \<lparr>summaryDivider := DividerOrg, state := Some lexMainSection\<rparr>"
    by (simp add: lexFrontMatterOrgMode_def rest_lexer0 Let_def split: if_splits)
  show ?thesis using k
    by (simp add: l introOK_def introItemOK_def emit_def advance_def newPageLexer_def
        slice_def isFrontMatter_def)
qed

lemma lexIntro_ok: "introOK orgStyle inp (lexIntro orgStyle (lexer0 inp))"
proof -
  let ?l = "lexer0 inp"
  have none: "orgStyle inp \<Longrightarrow>
      introOK orgStyle inp (?l\<lparr>summaryDivider := DividerOrg, state := Some lexMainSection\<rparr>)"
    "\<not> orgStyle inp \<Longrightarrow>
      introOK orgStyle inp (?l\<lparr>summaryDivider := DividerGeneric, state := Some lexMainSection\<rparr>)"
    by (simp_all add: introOK_def newPageLexer_def)
  have yaml: "introOK orgStyle inp l"
    if "lexFrontMatterSection tFrontMatterYAML ''---'' [''---'', ''...''] ?l = Some l" for l
    by (rule lexFrontMatterSection_ok [OF that]) simp_all
  have toml: "introOK orgStyle inp l"
    if "lexFrontMatterSection tFrontMatterTOML ''+++'' [''+++''] ?l = Some l" for l
    by (rule lexFrontMatterSection_ok [OF that]) simp_all
  show ?thesis
    unfolding lexIntro_def
    using none yaml toml lexHTMLLead_ok [of inp _ orgStyle] lexFrontMatterJSON_ok [of inp _ orgStyle]
      lexFrontMatterOrgMode_ok [of inp _ orgStyle]
    by (simp add: rest_lexer0 split: option.split)
qed

lemma collectLoop_all:
  assumes "list_all (\<lambda>item. \<not> isTerminal (typ' item)) q" and "isTerminal (typ' t)"
    and "items l = q @ [t]"
  shows "collectLoop l acc = Some (acc @ q @ [t])"
  using assms
proof (induction q arbitrary: l acc)
  case Nil
  then show ?case by (simp add: nextItem_def isTerminal_def)
next
  case (Cons a q)
  let ?l = "l\<lparr>items := q @ [t]\<rparr>"
  from Cons.prems have n: "nextItem l = Some (a, ?l)" by (simp add: nextItem_def)
  from Cons.prems have nt: "\<not> (typ' a = tEOF \<or> typ' a = tError)" by (simp add: isTerminal_def)
  have "collectLoop l acc = collectLoop ?l (acc @ [a])"
    using n nt by (subst collectLoop.simps) simp
  also have "\<dots> = Some ((acc @ [a]) @ q @ [t])"
    using Cons.prems by (intro Cons.IH) simp_all
  finally show ?case by simp
qed

lemma bodyOK_split:
  assumes "bodyOK k inp c body"
  shows "\<exists>q t. body = q @ [t] \<and> typ' t = tEOF \<and> list_all (\<lambda>item. \<not> isTerminal (typ' item)) q
           \<and> list_all (\<lambda>item. typ' item = tText \<or> typ' item = dividerType k) q"
proof -
  from assms have ne: "body \<noteq> []" and e: "typ' (last body) = tEOF"
    and a: "list_all (\<lambda>item. typ' item = tText \<or> typ' item = dividerType k) (butlast body)"
    by (simp_all add: bodyOK_def)
  have "list_all (\<lambda>item. \<not> isTerminal (typ' item)) (butlast body)"
    using a by (auto simp: list_all_iff isTerminal_def dividerType_def split: dividerKind.splits)
  with ne e a show ?thesis
    by (intro exI [of _ "butlast body"] exI [of _ "last body"]) simp
qed

lemma collect_main:
  "\<exists>body. collect orgStyle inp skip lexMainSection = Some body
         \<and> items (run orgStyle (newPageLexer inp 0 lexMainSection)) = body
         \<and> state (run orgStyle (newPageLexer inp 0 lexMainSection)) = None
         \<and> bodyOK DividerGeneric inp 0 body"
proof -
  let ?l = "newPageLexer inp 0 lexMainSection"
  have "\<exists>body. items (run orgStyle ?l) = items ?l @ body \<and> state (run orgStyle ?l) = None
           \<and> bodyOK (summaryDivider ?l) (input ?l) (cursor ?l) body"
    by (rule run_main) (simp_all add: newPageLexer_def)
  then obtain body where b: "items (run orgStyle ?l) = body" "state (run orgStyle ?l) = None"
      "bodyOK DividerGeneric inp 0 body"
    by (auto simp: newPageLexer_def)
  from bodyOK_split [OF b(3)] obtain q t where
    q: "body = q @ [t]" "typ' t = tEOF" "list_all (\<lambda>item. \<not> isTerminal (typ' item)) q"
    by blast
  have "collectLoop (run orgStyle ?l) [] = Some ([] @ q @ [t])"
    using q b(1) by (intro collectLoop_all) (simp_all add: isTerminal_def)
  with q b show ?thesis by (simp add: collect_def)
qed

lemma collect_intro:
  "\<exists>q. collect orgStyle inp skip lexIntroSection = Some q
        \<and> items (run orgStyle (newPageLexer inp 0 lexIntroSection)) = q
        \<and> state (run orgStyle (newPageLexer inp 0 lexIntroSection)) = None
        \<and> runOK orgStyle inp q"
proof -
  let ?init = "lexer0 inp"
  let ?l = "lexIntro orgStyle ?init"
  have "state ?init = Some lexIntroSection" by (simp add: newPageLexer_def)
  then have r: "run orgStyle ?init = run orgStyle ?l"
    by (simp add: run_Some)
  have ok: "introOK orgStyle inp ?l" by (rule lexIntro_ok)
  then have base: "input ?l = inp" "tokenStart ?l = cursor ?l" "cursor ?l \<le> length inp"
    by (simp_all add: introOK_def)
  from ok consider
      (err) p where "state ?l = None" "items ?l = [\<lparr>typ' = tError, pos = p, Val = []\<rparr>]"
    | (none) "state ?l = Some lexMainSection" "items ?l = []" "cursor ?l = 0"
        "summaryDivider ?l = (if orgStyle inp then DividerOrg else DividerGeneric)"
    | (item) item where "state ?l = Some lexMainSection" "items ?l = [item]" "introItemOK inp ?l item"
    by (auto simp: introOK_def)
  then show ?thesis
  proof cases
    case err
    then have run: "run orgStyle ?init = ?l" using r by (simp add: run_None)
    have "collectLoop ?l [] = Some ([] @ [] @ [\<lparr>typ' = tError, pos = p, Val = []\<rparr>])"
      using err by (intro collectLoop_all) (simp_all add: isTerminal_def)
    then show ?thesis using err run by (simp add: collect_def runOK_def)
  next
    case none
    from run_main [of ?l orgStyle] none base obtain body where
      b: "items (run orgStyle ?l) = body" "state (run orgStyle ?l) = None"
         "bodyOK (if orgStyle inp then DividerOrg else DividerGeneric) inp 0 body"
      by auto
    from bodyOK_split [OF b(3)] obtain q t where
      q: "body = q @ [t]" "typ' t = tEOF" "list_all (\<lambda>item. \<not> isTerminal (typ' item)) q"
      by blast
    have "collectLoop (run orgStyle ?l) [] = Some ([] @ q @ [t])"
      using q b(1) by (intro collectLoop_all) (simp_all add: isTerminal_def)
    with q b r show ?thesis by (simp add: collect_def runOK_def)
  next
    case item
    from run_main [of ?l orgStyle] item(1,2) base obtain body where
      b: "items (run orgStyle ?l) = item # body" "state (run orgStyle ?l) = None"
         "bodyOK (summaryDivider ?l) inp (cursor ?l) body"
      by auto
    from item(3) have m: "summaryDivider ?l = modeOf (typ' item)"
      by (simp add: introItemOK_def modeOf_def)
    from bodyOK_split [OF b(3)] obtain q t where
      q: "body = q @ [t]" "typ' t = tEOF" "list_all (\<lambda>item. \<not> isTerminal (typ' item)) q"
      by blast
    from item(3) have nt: "\<not> isTerminal (typ' item)"
      by (auto simp: introItemOK_def isTerminal_def isFrontMatter_def)
    have "collectLoop (run orgStyle ?l) [] = Some ([] @ (item # q) @ [t])"
      using q b(1) nt by (intro collectLoop_all) (simp_all add: isTerminal_def)
    moreover have "runOK orgStyle inp (item # body)"
      unfolding runOK_def using item(3) b(3) base(3) m
      by (intro disjI2 exI [of _ item] exI [of _ "cursor ?l"] exI [of _ body])
         (simp add: introItemOK_def)
    ultimately show ?thesis using q b r by (simp add: collect_def)
  qed
qed

lemma runOK_split:
  assumes "runOK orgStyle inp q"
  shows "\<exists>q' t. q = q' @ [t] \<and> isTerminal (typ' t) \<and> list_all (\<lambda>item. \<not> isTerminal (typ' item)) q'"
proof -
  from assms consider
      (err) p where "q = [\<lparr>typ' = tError, pos = p, Val = []\<rparr>]"
    | (body) k where "bodyOK k inp 0 q"
    | (item) item c body where "q = item # body"
        "typ' item = tHTMLLead \<or> isFrontMatter (typ' item)" "bodyOK (modeOf (typ' item)) inp c body"
    unfolding runOK_def by blast
  then show ?thesis
  proof cases
    case err
    then show ?thesis by (intro exI [of _ "[]"]) (simp add: isTerminal_def)
  next
    case body
    from bodyOK_split [OF this] show ?thesis by (auto simp: isTerminal_def)
  next
    case item
    from bodyOK_split [OF item(3)] obtain q' t where
      q: "body = q' @ [t]" "typ' t = tEOF" "list_all (\<lambda>item. \<not> isTerminal (typ' item)) q'"
      by blast
    from item(2) have "\<not> isTerminal (typ' item)"
      by (auto simp: isTerminal_def isFrontMatter_def)
    with q item(1) show ?thesis
      by (intro exI [of _ "item # q'"] exI [of _ t]) (simp add: isTerminal_def)
  qed
qed

lemma one_terminal:
  assumes "list_all (\<lambda>item. \<not> isTerminal (typ' item)) q" and "isTerminal (typ' t)"
  shows "length (filter (\<lambda>item. isTerminal (typ' item)) (q @ [t])) = 1"
proof -
  from assms(1) have "filter (\<lambda>item. isTerminal (typ' item)) q = []"
    by (simp add: list_all_iff filter_empty_conv)
  with assms(2) show ?thesis by simp
qed

text \<open>
  C3. Every run ends, whatever the input and the start state: \<open>run\<close> is a total
  function and leaves no active state, \<open>collect\<close> returns, and the items it returns
  hold exactly one terminal item (EndOfInput or Error), which is the last.
\<close>

theorem run_terminates:
  "\<exists>q. collect orgStyle inp skipFrontMatter stateStart = Some q
      \<and> items (run orgStyle (newPageLexer inp 0 stateStart)) = q
      \<and> state (run orgStyle (newPageLexer inp 0 stateStart)) = None
      \<and> q \<noteq> [] \<and> isTerminal (typ' (last q))
      \<and> list_all (\<lambda>item. \<not> isTerminal (typ' item)) (butlast q)
      \<and> length (filter (\<lambda>item. isTerminal (typ' item)) q) = 1"
proof -
  obtain q where q: "collect orgStyle inp skipFrontMatter stateStart = Some q"
      "items (run orgStyle (newPageLexer inp 0 stateStart)) = q"
      "state (run orgStyle (newPageLexer inp 0 stateStart)) = None"
    and s: "\<exists>q' t. q = q' @ [t] \<and> isTerminal (typ' t) \<and> list_all (\<lambda>item. \<not> isTerminal (typ' item)) q'"
  proof (cases stateStart)
    case lexIntroSection
    from collect_intro [of orgStyle inp skipFrontMatter] obtain q where
      "collect orgStyle inp skipFrontMatter lexIntroSection = Some q"
      "items (run orgStyle (newPageLexer inp 0 lexIntroSection)) = q"
      "state (run orgStyle (newPageLexer inp 0 lexIntroSection)) = None"
      "runOK orgStyle inp q" by blast
    with lexIntroSection that runOK_split show ?thesis by blast
  next
    case lexMainSection
    from collect_main [of orgStyle inp skipFrontMatter] obtain q where
      c: "collect orgStyle inp skipFrontMatter lexMainSection = Some q"
      "items (run orgStyle (newPageLexer inp 0 lexMainSection)) = q"
      "state (run orgStyle (newPageLexer inp 0 lexMainSection)) = None"
      "bodyOK DividerGeneric inp 0 q" by blast
    from bodyOK_split [OF c(4)]
    have "\<exists>q' t. q = q' @ [t] \<and> isTerminal (typ' t) \<and> list_all (\<lambda>item. \<not> isTerminal (typ' item)) q'"
      by (auto simp: isTerminal_def)
    with lexMainSection that c show ?thesis by blast
  qed
  from s obtain q' t where t: "q = q' @ [t]" "isTerminal (typ' t)"
    "list_all (\<lambda>item. \<not> isTerminal (typ' item)) q'" by blast
  from one_terminal [OF t(3) t(2)] t q show ?thesis by simp
qed

end
